theory Spec2Isabelle
  imports Main "HOL-Library.Word"
begin

section \<open>Modular intervals (struct interval of bv\_bounds\_tactic.cpp)\<close>

text \<open>
  The bounds \<open>l\<close> and \<open>h\<close> are arbitrary-precision rationals in the source; every value
  that reaches them is an integer (a bit-vector literal, a power of two, or one of those
  plus or minus one, or a maximum or minimum of two of them), so they are integers here.
  The width is a C++ \<open>unsigned\<close>, a 32-bit word; \<open>sz - 1\<close> below wraps as it does there.
\<close>

definition uMaxInt :: "32 word \<Rightarrow> int" where
  "uMaxInt w = 2 ^ unat w - 1"

record interval =
  l :: int
  h :: int
  sz :: "32 word"

text \<open>
  The three-argument constructor. Its \<open>SASSERT(invariant())\<close> is a debug-build assertion:
  it is stated as the predicate \<open>invariant\<close> and proved of every interval the component
  builds, rather than made a branch of the constructor.
\<close>

definition mk_interval :: "int \<Rightarrow> int \<Rightarrow> 32 word \<Rightarrow> interval" where
  "mk_interval lo hi w = \<lparr>l = lo, h = hi, sz = w\<rparr>"

definition invariant :: "interval \<Rightarrow> bool" where
  "invariant i \<longleftrightarrow>
     \<not> l i < 0 \<and> \<not> h i < 0 \<and> l i \<le> uMaxInt (sz i) \<and> h i \<le> uMaxInt (sz i)"

definition is_full :: "interval \<Rightarrow> bool" where
  "is_full i \<longleftrightarrow> l i = 0 \<and> h i = uMaxInt (sz i)"

definition is_wrapped :: "interval \<Rightarrow> bool" where
  "is_wrapped i \<longleftrightarrow> l i > h i"

text \<open>\<open>a.implies(b)\<close>; the name \<open>implies\<close> is taken by HOL's implication.\<close>

definition implies_interval :: "interval \<Rightarrow> interval \<Rightarrow> bool" where
  "implies_interval a b =
     (if is_full b then True
      else if is_full a then False
      else if is_wrapped a then is_wrapped b \<and> h a \<le> h b \<and> l a \<ge> l b
      else if is_wrapped b then h a \<le> h b \<or> l a \<ge> l b
      else l a \<ge> l b \<and> h a \<le> h b)"

text \<open>
  \<open>a.intersect(b, result)\<close>: \<open>None\<close> is the return value \<open>false\<close> (and \<open>result\<close> is left
  as it was), \<open>Some r\<close> is \<open>true\<close> with \<open>result = r\<close>. Every assignment to \<open>result\<close>
  evaluates its right-hand side first, so the call \<open>r.intersect(b, r)\<close> of \<open>add_bound\<close>,
  where \<open>result\<close> aliases the receiver, computes the same interval. The
  \<open>SASSERT(l <= b.h)\<close> of the last contiguous/wrapped branch follows from the tests
  that lead to it (not both \<open>h < b.l\<close> and \<open>l > b.h\<close>, and not \<open>h \<ge> b.l\<close>).
\<close>

function intersect :: "interval \<Rightarrow> interval \<Rightarrow> interval option" where
  "intersect a b =
     (if is_full a \<or> (l a = l b \<and> h a = h b) then Some b
      else if is_full b then Some a
      else if is_wrapped a then
        (if is_wrapped b then
           (if h a > l b then Some b
            else if h b > l a then Some a
            else Some (mk_interval (max (l a) (l b)) (min (h a) (h b)) (sz a)))
         else intersect b a)
      else if is_wrapped b then
        (if h a < l b \<and> l a > h b then None
         else if h a \<ge> l b \<and> l a \<le> h b then Some b
         else if h a \<ge> l b then Some (mk_interval (l b) (h a) (sz a))
         else Some (mk_interval (l a) (min (h a) (h b)) (sz a)))
      else Some (mk_interval (max (l a) (l b)) (min (h a) (h b)) (sz a)))"
  by pat_completeness auto
termination
  by (relation "measure (\<lambda>(a, b). if is_wrapped a \<and> \<not> is_wrapped b then 1 else 0)") auto

declare intersect.simps [simp del]

definition negate :: "interval \<Rightarrow> interval option" where
  "negate a =
     (if is_full a then None
      else if l a = 0 then Some (mk_interval (h a + 1) (uMaxInt (sz a)) (sz a))
      else if uMaxInt (sz a) = h a then Some (mk_interval 0 (l a - 1) (sz a))
      else Some (mk_interval (h a + 1) (l a - 1) (sz a)))"

text \<open>
  The set of residues an interval stands for, in the words of the specification and of
  the comment on the struct: \<open>[l, h]\<close> when \<open>l \<le> h\<close>, and \<open>[0, h] \<union> [l, UMAX_INT]\<close>
  when \<open>l > h\<close>.
\<close>

definition interval_set :: "interval \<Rightarrow> int set" where
  "interval_set i =
     (if l i \<le> h i then {l i .. h i} else {0 .. h i} \<union> {l i .. uMaxInt (sz i)})"

section \<open>Terms\<close>

text \<open>
  Modelled from the spec: the term representation and the bit-vector shape recogniser
  (\<open>ast_manager\<close>, \<open>bv_util\<close>) are not part of the source file. Section 6 of the
  specification asks of them a boolean-true term, a boolean-false term, an equality term
  between two terms, a literal term of a given value and width, the width of a term, and
  recognisers for unsigned \<open>\<le>\<close>, signed \<open>\<le>\<close>, equality and literals. Bit-vector terms and
  boolean terms are two types, so that the operands of a comparison always have a width.
\<close>

datatype bv_expr =
    mk_const string "32 word"
  | mk_numeral int "32 word"

datatype expr =
    mk_true
  | mk_false
  | mk_ule bv_expr bv_expr
  | mk_sle bv_expr bv_expr
  | mk_eq bv_expr bv_expr
  | mk_bool_const string

fun is_numeral :: "bv_expr \<Rightarrow> (int \<times> 32 word) option" where
  "is_numeral (mk_numeral n w) = Some (n, w)"
| "is_numeral (mk_const x w) = None"

fun get_bv_size :: "bv_expr \<Rightarrow> 32 word" where
  "get_bv_size (mk_const x w) = w"
| "get_bv_size (mk_numeral n w) = w"

section \<open>The simplifier (class bv\_bounds\_simplifier)\<close>

text \<open>
  \<open>m_bound\<close> always points at \<open>m_scopes.back()\<close>: it is the last table of the list.
\<close>

record bv_bounds_simplifier =
  m_scopes :: "(bv_expr \<rightharpoonup> interval) list"

definition m_bound :: "bv_bounds_simplifier \<Rightarrow> (bv_expr \<rightharpoonup> interval)" where
  "m_bound s = last (m_scopes s)"

definition set_bound :: "bv_bounds_simplifier \<Rightarrow> (bv_expr \<rightharpoonup> interval) \<Rightarrow> bv_bounds_simplifier" where
  "set_bound s t = s\<lparr>m_scopes := butlast (m_scopes s) @ [t]\<rparr>"

definition init :: bv_bounds_simplifier where
  "init = \<lparr>m_scopes = [Map.empty]\<rparr>"

datatype error = Assertion_violation | Scope_underflow

fun is_bound :: "expr \<Rightarrow> (bv_expr \<times> interval) option" where
  "is_bound (mk_ule lhs rhs) =
     (case is_numeral lhs of
        Some (n, w) \<Rightarrow> Some (rhs, mk_interval n (uMaxInt w) w)
      | None \<Rightarrow>
         (case is_numeral rhs of
            Some (n, w) \<Rightarrow> Some (lhs, mk_interval 0 n w)
          | None \<Rightarrow> None))"
| "is_bound (mk_sle lhs rhs) =
     (case is_numeral lhs of
        Some (n, w) \<Rightarrow> Some (rhs, mk_interval n (2 ^ unat (w - 1) - 1) w)
      | None \<Rightarrow>
         (case is_numeral rhs of
            Some (n, w) \<Rightarrow> Some (lhs, mk_interval (2 ^ unat (w - 1)) n w)
          | None \<Rightarrow> None))"
| "is_bound (mk_eq lhs rhs) =
     (case is_numeral lhs of
        Some (n, w) \<Rightarrow> Some (rhs, mk_interval n n w)
      | None \<Rightarrow>
         (case is_numeral rhs of
            Some (n, w) \<Rightarrow> Some (lhs, mk_interval n n w)
          | None \<Rightarrow> None))"
| "is_bound mk_true = None"
| "is_bound mk_false = None"
| "is_bound (mk_bool_const x) = None"

text \<open>\<open>push\<close> appends a copy of the current table, which becomes the current one.\<close>

definition push :: "bv_bounds_simplifier \<Rightarrow> bv_bounds_simplifier" where
  "push s = s\<lparr>m_scopes := m_scopes s @ [m_bound s]\<rparr>"

text \<open>
  \<open>pop\<close> shrinks the vector and takes the address of its last element; with
  \<open>num_scopes\<close> at or above the size of the vector the source has no defined behaviour
  (the specification calls it scope underflow), which is the error here.
\<close>

definition pop :: "bv_bounds_simplifier \<Rightarrow> nat \<Rightarrow> error + bv_bounds_simplifier" where
  "pop s num_scopes =
     (if num_scopes < length (m_scopes s)
      then Inr (s\<lparr>m_scopes := take (length (m_scopes s) - num_scopes) (m_scopes s)\<rparr>)
      else Inl Scope_underflow)"

text \<open>
  \<open>m_scopes.size() - 1\<close> is unsigned; the vector holds at least the table of the
  constructor in every state a run reaches (\<open>store_ok\<close> below), so it does not wrap.
\<close>

definition scope_level :: "bv_bounds_simplifier \<Rightarrow> nat" where
  "scope_level s = length (m_scopes s) - 1"

text \<open>
  \<open>add_bound\<close>: enter a scope, fetch the entry of \<open>t\<close> in the new top table (inserting
  \<open>b\<close> when there is none), and intersect it in place with \<open>b\<close>. The boolean is the
  return value; when it is \<open>false\<close> the entry stays as \<open>insert_if_not_there2\<close> left it.
\<close>

definition add_bound ::
    "bv_bounds_simplifier \<Rightarrow> bv_expr \<Rightarrow> interval \<Rightarrow> bool \<times> bv_bounds_simplifier" where
  "add_bound s t b =
     (let s1 = push s;
          r = (case m_bound s1 t of None \<Rightarrow> b | Some e \<Rightarrow> e)
      in case intersect r b of
           Some res \<Rightarrow> (True, set_bound s1 ((m_bound s1)(t \<mapsto> res)))
         | None \<Rightarrow> (False, set_bound s1 ((m_bound s1)(t \<mapsto> r))))"

text \<open>
  Modelled from the spec: the macro \<open>VERIFY\<close> is not part of the source file; the
  specification (section 7) has a failed \<open>VERIFY\<close> be an assertion failure that ends the
  run, which is the error \<open>Assertion_violation\<close>. The argument \<open>sign\<close> is true for a
  negated hypothesis.
\<close>

definition assert_expr ::
    "bv_bounds_simplifier \<Rightarrow> expr \<Rightarrow> bool \<Rightarrow> error + bv_bounds_simplifier" where
  "assert_expr s t sign =
     (case is_bound t of
        None \<Rightarrow> Inr s
      | Some (t1, b) \<Rightarrow>
         (case (if sign then negate b else Some b) of
            None \<Rightarrow> Inl Assertion_violation
          | Some b' \<Rightarrow>
             (case add_bound s t1 b' of
                (True, s') \<Rightarrow> Inr s'
              | (False, s') \<Rightarrow> Inl Assertion_violation)))"

text \<open>
  \<open>simplify\<close> is a member function of a mutable object: it returns the result term
  (\<open>None\<close> for the null result and the return value \<open>false\<close>) together with the state it
  leaves behind.
\<close>

definition simplify ::
    "bv_bounds_simplifier \<Rightarrow> expr \<Rightarrow> expr option \<times> bv_bounds_simplifier" where
  "simplify s t =
     (case is_bound t of
        None \<Rightarrow> (None, s)
      | Some (t1, b) \<Rightarrow>
         (case m_bound s t1 of
            None \<Rightarrow> (None, s)
          | Some ctx \<Rightarrow>
             (case intersect b ctx of
                None \<Rightarrow> (Some mk_false, s)
              | Some intr \<Rightarrow>
                 if l intr = h intr
                 then (Some (mk_eq t1 (mk_numeral (l intr) (get_bv_size t1))), s)
                 else if implies_interval ctx b then (Some mk_true, s)
                 else (None, s))))"

section \<open>Scenarios\<close>

text \<open>
  A hypothesis is a term with its \<open>sign\<close>. \<open>assert_all\<close> records a list of hypotheses
  in order, stopping at the first assertion failure; \<open>try_after\<close> is the result of
  \<open>simplify\<close> after the hypotheses were recorded from the constructor's state, and
  \<open>bound_after\<close> the entry of a term in the current table at that point.
\<close>

fun assert_all ::
    "bv_bounds_simplifier \<Rightarrow> (expr \<times> bool) list \<Rightarrow> error + bv_bounds_simplifier" where
  "assert_all s [] = Inr s"
| "assert_all s ((t, sign) # hs) =
     (case assert_expr s t sign of
        Inl e \<Rightarrow> Inl e
      | Inr s' \<Rightarrow> assert_all s' hs)"

definition try_after :: "(expr \<times> bool) list \<Rightarrow> expr \<Rightarrow> error + expr option" where
  "try_after hs t =
     (case assert_all init hs of
        Inl e \<Rightarrow> Inl e
      | Inr s \<Rightarrow> Inr (fst (simplify s t)))"

definition bound_after :: "(expr \<times> bool) list \<Rightarrow> bv_expr \<Rightarrow> error + interval option" where
  "bound_after hs k =
     (case assert_all init hs of
        Inl e \<Rightarrow> Inl e
      | Inr s \<Rightarrow> Inr (m_bound s k))"

text \<open>The calls a client makes, and a run of them from a given state.\<close>

datatype op = Push | Pop nat | Assert_expr expr bool | Simplify expr

fun step :: "bv_bounds_simplifier \<Rightarrow> op \<Rightarrow> error + bv_bounds_simplifier" where
  "step s Push = Inr (push s)"
| "step s (Pop n) = pop s n"
| "step s (Assert_expr t sign) = assert_expr s t sign"
| "step s (Simplify t) = Inr (snd (simplify s t))"

fun run :: "bv_bounds_simplifier \<Rightarrow> op list \<Rightarrow> error + bv_bounds_simplifier" where
  "run s [] = Inr s"
| "run s (c # cs) =
     (case step s c of
        Inl e \<Rightarrow> Inl e
      | Inr s' \<Rightarrow> run s' cs)"

definition level_after :: "op list \<Rightarrow> error + nat" where
  "level_after cs = map_sum id scope_level (run init cs)"

text \<open>
  The depth as the specification words it: the \<open>enter_scope\<close> calls not yet matched by
  \<open>leave_scopes\<close>.
\<close>

fun unmatched_pushes :: "op list \<Rightarrow> int" where
  "unmatched_pushes [] = 0"
| "unmatched_pushes (Push # cs) = unmatched_pushes cs + 1"
| "unmatched_pushes (Pop n # cs) = unmatched_pushes cs - int n"
| "unmatched_pushes (c # cs) = unmatched_pushes cs"

text \<open>
  The scopes a run enters (one for each \<open>push\<close> and one for each \<open>assert_expr\<close> on a
  term that \<open>is_bound\<close> recognises, through \<open>add_bound\<close>) and the scopes it leaves.
\<close>

fun enters :: "op \<Rightarrow> nat" where
  "enters Push = 1"
| "enters (Assert_expr t sign) = (if is_bound t = None then 0 else 1)"
| "enters c = 0"

fun leaves :: "op \<Rightarrow> nat" where
  "leaves (Pop n) = n"
| "leaves c = 0"

section \<open>Input conditions\<close>

text \<open>
  A literal is in range for its width when the width is that of a bit-vector sort
  (at least one bit) and the value lies in \<open>0 .. MAX(sz)\<close>.
\<close>

fun numeral_in_range :: "bv_expr \<Rightarrow> bool" where
  "numeral_in_range (mk_numeral n w) \<longleftrightarrow> w \<noteq> 0 \<and> 0 \<le> n \<and> n \<le> uMaxInt w"
| "numeral_in_range (mk_const x w) \<longleftrightarrow> True"

fun literals_in_range :: "expr \<Rightarrow> bool" where
  "literals_in_range (mk_ule lhs rhs) \<longleftrightarrow> numeral_in_range lhs \<and> numeral_in_range rhs"
| "literals_in_range (mk_sle lhs rhs) \<longleftrightarrow> numeral_in_range lhs \<and> numeral_in_range rhs"
| "literals_in_range (mk_eq lhs rhs) \<longleftrightarrow> numeral_in_range lhs \<and> numeral_in_range rhs"
| "literals_in_range t \<longleftrightarrow> True"

text \<open>
  A comparison is well sorted when its two operands have the same width, as the term
  manager of the source guarantees for every term it builds.
\<close>

fun well_sorted :: "expr \<Rightarrow> bool" where
  "well_sorted (mk_ule lhs rhs) \<longleftrightarrow> get_bv_size lhs = get_bv_size rhs"
| "well_sorted (mk_sle lhs rhs) \<longleftrightarrow> get_bv_size lhs = get_bv_size rhs"
| "well_sorted (mk_eq lhs rhs) \<longleftrightarrow> get_bv_size lhs = get_bv_size rhs"
| "well_sorted t \<longleftrightarrow> True"

fun op_ok :: "op \<Rightarrow> bool" where
  "op_ok (Assert_expr t sign) \<longleftrightarrow> literals_in_range t \<and> well_sorted t"
| "op_ok c \<longleftrightarrow> True"

text \<open>
  The invariant of the store: the scope stack is not empty, and every recorded interval
  satisfies \<open>invariant\<close> and has the width of the term it bounds.
\<close>

definition table_ok :: "(bv_expr \<rightharpoonup> interval) \<Rightarrow> bool" where
  "table_ok T \<longleftrightarrow> (\<forall>k i. T k = Some i \<longrightarrow> invariant i \<and> sz i = get_bv_size k)"

definition store_ok :: "bv_bounds_simplifier \<Rightarrow> bool" where
  "store_ok s \<longleftrightarrow> m_scopes s \<noteq> [] \<and> (\<forall>T \<in> set (m_scopes s). table_ok T)"

text \<open>The bit-vector constant \<open>x\<close>, literals and intervals of width 8.\<close>

abbreviation x8 :: bv_expr where
  "x8 \<equiv> mk_const ''x'' 8"

abbreviation num8 :: "int \<Rightarrow> bv_expr" where
  "num8 n \<equiv> mk_numeral n 8"

abbreviation iv8 :: "int \<Rightarrow> int \<Rightarrow> interval" where
  "iv8 lo hi \<equiv> \<lparr>l = lo, h = hi, sz = 8\<rparr>"

section \<open>Evaluation on concrete inputs\<close>

lemmas interval_defs =
  is_full_def is_wrapped_def mk_interval_def uMaxInt_def invariant_def

lemmas simplifier_defs =
  assert_expr_def add_bound_def push_def init_def m_bound_def set_bound_def
  simplify_def implies_interval_def try_after_def bound_after_def Let_def

section \<open>Negation\<close>

lemma negate_cases:
  "negate a =
     (if is_full a then None
      else if l a = 0 then Some \<lparr>l = h a + 1, h = uMaxInt (sz a), sz = sz a\<rparr>
      else if h a = uMaxInt (sz a) then Some \<lparr>l = 0, h = l a - 1, sz = sz a\<rparr>
      else Some \<lparr>l = h a + 1, h = l a - 1, sz = sz a\<rparr>)"
  by (auto simp: negate_def mk_interval_def)

text \<open>
  C7 as stated fails: outside the cases \<open>full\<close>, \<open>l = 0\<close> and \<open>h = MAX\<close> the result
  \<open>[a.h+1, a.l-1]\<close> is not always a wrapped interval. The wrapped interval \<open>[21, 9]\<close>
  of width 8 (itself the negation of \<open>[10, 20]\<close>) is negated to \<open>[10, 20]\<close>, which is
  contiguous.
\<close>

theorem negate_result_not_wrapped:
  "\<not> is_full \<lparr>l = 21, h = 9, sz = 8\<rparr> \<and> l \<lparr>l = 21, h = 9, sz = 8\<rparr> \<noteq> 0
   \<and> h \<lparr>l = 21, h = 9, sz = 8\<rparr> \<noteq> uMaxInt 8
   \<and> negate \<lparr>l = 21, h = 9, sz = 8\<rparr> = Some \<lparr>l = 10, h = 20, sz = 8\<rparr>
   \<and> \<not> is_wrapped \<lparr>l = 10, h = 20, sz = 8\<rparr>"
  by (simp add: negate_def interval_defs)

text \<open>
  C7, amended: \<open>negate a\<close> yields no result iff \<open>a\<close> is full; otherwise it yields
  \<open>[a.h+1, MAX(sz)]\<close> when \<open>a.l = 0\<close>, \<open>[0, a.l-1]\<close> when \<open>a.h = MAX(sz)\<close>, and
  \<open>[a.h+1, a.l-1]\<close> otherwise, an interval that is wrapped whenever \<open>a\<close> is contiguous
  (\<open>a.l \<le> a.h\<close>). At width 8, \<open>negate [0,5] = [6,255]\<close>, \<open>negate [250,255] = [0,249]\<close>
  and \<open>negate [10,20] = [21,9]\<close>.
\<close>

theorem negate_spec:
  "(negate a = None \<longleftrightarrow> is_full a)
   \<and> (\<not> is_full a \<and> l a = 0 \<longrightarrow>
        negate a = Some \<lparr>l = h a + 1, h = uMaxInt (sz a), sz = sz a\<rparr>)
   \<and> (l a \<noteq> 0 \<and> h a = uMaxInt (sz a) \<longrightarrow>
        negate a = Some \<lparr>l = 0, h = l a - 1, sz = sz a\<rparr>)
   \<and> (l a \<noteq> 0 \<and> h a \<noteq> uMaxInt (sz a) \<longrightarrow>
        negate a = Some \<lparr>l = h a + 1, h = l a - 1, sz = sz a\<rparr>
        \<and> (l a \<le> h a \<longrightarrow> is_wrapped \<lparr>l = h a + 1, h = l a - 1, sz = sz a\<rparr>))
   \<and> negate \<lparr>l = 0, h = 5, sz = 8\<rparr> = Some \<lparr>l = 6, h = 255, sz = 8\<rparr>
   \<and> negate \<lparr>l = 250, h = 255, sz = 8\<rparr> = Some \<lparr>l = 0, h = 249, sz = 8\<rparr>
   \<and> negate \<lparr>l = 10, h = 20, sz = 8\<rparr> = Some \<lparr>l = 21, h = 9, sz = 8\<rparr>"
proof -
  have "negate a = None \<longleftrightarrow> is_full a"
    by (simp add: negate_cases)
  moreover have "\<not> is_full a \<and> l a = 0 \<longrightarrow>
      negate a = Some \<lparr>l = h a + 1, h = uMaxInt (sz a), sz = sz a\<rparr>"
    by (simp add: negate_cases)
  moreover have "l a \<noteq> 0 \<and> h a = uMaxInt (sz a) \<longrightarrow>
      negate a = Some \<lparr>l = 0, h = l a - 1, sz = sz a\<rparr>"
    by (simp add: negate_cases is_full_def)
  moreover have "l a \<noteq> 0 \<and> h a \<noteq> uMaxInt (sz a) \<longrightarrow>
      negate a = Some \<lparr>l = h a + 1, h = l a - 1, sz = sz a\<rparr>
      \<and> (l a \<le> h a \<longrightarrow> is_wrapped \<lparr>l = h a + 1, h = l a - 1, sz = sz a\<rparr>)"
    by (simp add: negate_cases is_full_def is_wrapped_def)
  moreover have "negate \<lparr>l = 0, h = 5, sz = 8\<rparr> = Some \<lparr>l = 6, h = 255, sz = 8\<rparr>"
    by (simp add: negate_def interval_defs)
  moreover have "negate \<lparr>l = 250, h = 255, sz = 8\<rparr> = Some \<lparr>l = 0, h = 249, sz = 8\<rparr>"
    by (simp add: negate_def interval_defs)
  moreover have "negate \<lparr>l = 10, h = 20, sz = 8\<rparr> = Some \<lparr>l = 21, h = 9, sz = 8\<rparr>"
    by (simp add: negate_def interval_defs)
  ultimately show ?thesis by blast
qed

theorem negate_spec_witness:
  "\<not> is_full \<lparr>l = 10, h = 20, sz = 8\<rparr>
   \<and> l \<lparr>l = 10, h = 20, sz = 8\<rparr> \<noteq> 0
   \<and> h \<lparr>l = 10, h = 20, sz = 8\<rparr> \<noteq> uMaxInt 8
   \<and> l \<lparr>l = 10, h = 20, sz = 8\<rparr> \<le> h \<lparr>l = 10, h = 20, sz = 8\<rparr>
   \<and> negate \<lparr>l = 10, h = 20, sz = 8\<rparr> = Some \<lparr>l = 21, h = 9, sz = 8\<rparr>
   \<and> is_wrapped \<lparr>l = 21, h = 9, sz = 8\<rparr>
   \<and> \<not> is_full \<lparr>l = 0, h = 5, sz = 8\<rparr>
   \<and> negate \<lparr>l = 0, h = 5, sz = 8\<rparr> = Some \<lparr>l = 6, h = 255, sz = 8\<rparr>
   \<and> negate \<lparr>l = 250, h = 255, sz = 8\<rparr> = Some \<lparr>l = 0, h = 249, sz = 8\<rparr>"
proof -
  have a: "\<not> is_full \<lparr>l = 10, h = 20, sz = 8\<rparr>"
      "l \<lparr>l = 10, h = 20, sz = 8\<rparr> \<noteq> 0"
      "h \<lparr>l = 10, h = 20, sz = 8\<rparr> \<noteq> uMaxInt 8"
      "l \<lparr>l = 10, h = 20, sz = 8\<rparr> \<le> h \<lparr>l = 10, h = 20, sz = 8\<rparr>"
    by (simp_all add: interval_defs)
  have b: "\<not> is_full \<lparr>l = 0, h = 5, sz = 8\<rparr>"
    by (simp add: interval_defs)
  have c: "l \<lparr>l = 250, h = 255, sz = 8\<rparr> \<noteq> 0"
      "h \<lparr>l = 250, h = 255, sz = 8\<rparr> = uMaxInt 8"
    by (simp_all add: interval_defs)
  from a negate_spec [of "\<lparr>l = 10, h = 20, sz = 8\<rparr>"]
  have 1: "negate \<lparr>l = 10, h = 20, sz = 8\<rparr> = Some \<lparr>l = 21, h = 9, sz = 8\<rparr>"
      "is_wrapped \<lparr>l = 21, h = 9, sz = 8\<rparr>"
    by (simp_all add: uMaxInt_def)
  from b negate_spec [of "\<lparr>l = 0, h = 5, sz = 8\<rparr>"]
  have 2: "negate \<lparr>l = 0, h = 5, sz = 8\<rparr> = Some \<lparr>l = 6, h = 255, sz = 8\<rparr>"
    by (simp add: uMaxInt_def)
  from c negate_spec [of "\<lparr>l = 250, h = 255, sz = 8\<rparr>"]
  have 3: "negate \<lparr>l = 250, h = 255, sz = 8\<rparr> = Some \<lparr>l = 0, h = 249, sz = 8\<rparr>"
    by (simp add: uMaxInt_def)
  from a b 1 2 3 show ?thesis by simp
qed

section \<open>Intersection\<close>

lemma intersect_contiguous_not_None:
  "\<not> is_wrapped a \<Longrightarrow> \<not> is_wrapped b \<Longrightarrow> intersect a b \<noteq> None"
  by (subst intersect.simps) simp

text \<open>
  C2: for contiguous \<open>a\<close> and \<open>b\<close> of one width, \<open>intersect\<close> should report no
  intersection exactly when \<open>max a.l b.l > min a.h b.h\<close>, and \<open>intersect [0,3] [5,7]\<close>
  should yield none. The source does not: its last branch builds the crossed interval
  and returns \<open>true\<close>. At width 8 the two intervals have no value in common, and the call
  returns \<open>[5, 3]\<close>, which reads as the wrapped interval \<open>[0,3] \<union> [5,255]\<close>.
\<close>

theorem intersect_crossed_result:
  "\<not> is_wrapped (iv8 0 3) \<and> \<not> is_wrapped (iv8 5 7)
   \<and> max (l (iv8 0 3)) (l (iv8 5 7)) > min (h (iv8 0 3)) (h (iv8 5 7))
   \<and> interval_set (iv8 0 3) \<inter> interval_set (iv8 5 7) = {}
   \<and> intersect (iv8 0 3) (iv8 5 7) = Some (iv8 5 3)
   \<and> is_wrapped (iv8 5 3)"
  by (simp add: intersect.simps interval_defs interval_set_def)

lemma intersect_invariant:
  "invariant a \<Longrightarrow> invariant b \<Longrightarrow> sz a = sz b \<Longrightarrow> intersect a b = Some r \<Longrightarrow>
     invariant r \<and> sz r = sz a"
proof (induction a b arbitrary: r rule: intersect.induct)
  case (1 a b)
  show ?case
  proof (cases "\<not> (is_full a \<or> (l a = l b \<and> h a = h b)) \<and> \<not> is_full b
      \<and> is_wrapped a \<and> \<not> is_wrapped b")
    case True
    then have "intersect a b = intersect b a"
      by (subst intersect.simps) auto
    with "1.prems" have "intersect b a = Some r" by simp
    with True "1.IH" [of r] "1.prems" show ?thesis by simp
  next
    case False
    with "1.prems" show ?thesis
      by (subst (asm) intersect.simps)
        (auto simp: invariant_def mk_interval_def split: if_splits)
  qed
qed

lemma negate_invariant:
  "invariant a \<Longrightarrow> negate a = Some r \<Longrightarrow> invariant r \<and> sz r = sz a"
  by (auto simp: negate_def invariant_def is_full_def mk_interval_def split: if_splits)

section \<open>Implication\<close>

lemma mem_interval_set:
  "e \<in> interval_set i \<longleftrightarrow>
     (if l i \<le> h i then l i \<le> e \<and> e \<le> h i
      else (0 \<le> e \<and> e \<le> h i) \<or> (l i \<le> e \<and> e \<le> uMaxInt (sz i)))"
  by (simp add: interval_set_def)

lemma implies_interval_sound:
  assumes "invariant a" "invariant b" "sz a = sz b" "implies_interval a b"
  shows "interval_set a \<subseteq> interval_set b"
proof
  fix e assume "e \<in> interval_set a"
  with assms show "e \<in> interval_set b"
    by (auto simp: mem_interval_set invariant_def implies_interval_def is_full_def
      is_wrapped_def split: if_splits)
qed

lemma implies_interval_complete:
  assumes inv: "invariant a" "invariant b" and w: "sz a = sz b"
    and gap: "l b \<noteq> h b + 1"
    and sub: "interval_set a \<subseteq> interval_set b"
  shows "implies_interval a b"
proof -
  define M where "M = uMaxInt (sz b)"
  have Ma: "uMaxInt (sz a) = M" and Mb: "uMaxInt (sz b) = M"
    by (simp_all add: M_def w)
  from inv have bnd: "0 \<le> l a" "l a \<le> M" "0 \<le> h a" "h a \<le> M"
      "0 \<le> l b" "l b \<le> M" "0 \<le> h b" "h b \<le> M"
    by (simp_all add: invariant_def Ma Mb)
  have P: "e \<in> interval_set a \<Longrightarrow> e \<in> interval_set b" for e
    using sub by blast
  show ?thesis
  proof (cases "is_full b")
    case True
    then show ?thesis by (simp add: implies_interval_def)
  next
    case nfb: False
    consider (cc) "l a \<le> h a" "l b \<le> h b" | (cw) "l a \<le> h a" "h b < l b"
      | (wc) "h a < l a" "l b \<le> h b" | (ww) "h a < l a" "h b < l b"
      by linarith
    then show ?thesis
    proof cases
      case cc
      with P [of "l a"] P [of "h a"] have "l b \<le> l a" "h a \<le> h b"
        by (simp_all add: mem_interval_set)
      with cc nfb bnd show ?thesis
        by (auto simp: implies_interval_def is_wrapped_def is_full_def Ma Mb)
    next
      case cw
      from gap cw have g: "h b + 1 < l b" by linarith
      have nfa: "\<not> is_full a"
      proof
        assume "is_full a"
        then have "l a = 0" "h a = M" by (simp_all add: is_full_def Ma)
        with P [of "h b + 1"] cw g bnd show False
          by (simp add: mem_interval_set Mb)
      qed
      have "h a \<le> h b \<or> l b \<le> l a"
      proof (rule ccontr)
        assume "\<not> (h a \<le> h b \<or> l b \<le> l a)"
        then have *: "h b < h a" "l a < l b" by linarith+
        with P [of "max (l a) (h b + 1)"] cw g bnd show False
          by (simp add: mem_interval_set Mb split: if_splits)
      qed
      with cw nfb nfa show ?thesis
        by (auto simp: implies_interval_def is_wrapped_def)
    next
      case wc
      with P [of 0] P [of M] bnd have "l b = 0" "h b = M"
        by (simp_all add: mem_interval_set Ma)
      with nfb show ?thesis by (simp add: is_full_def Mb)
    next
      case ww
      from gap ww have g: "h b + 1 < l b" by linarith
      have nfa: "\<not> is_full a"
        using ww bnd by (auto simp: is_full_def)
      have "h a \<le> h b"
      proof (rule ccontr)
        assume "\<not> h a \<le> h b"
        with P [of "h b + 1"] ww g bnd show False
          by (simp add: mem_interval_set Ma Mb)
      qed
      moreover have "l b \<le> l a"
      proof (rule ccontr)
        assume "\<not> l b \<le> l a"
        with P [of "l b - 1"] ww g bnd show False
          by (simp add: mem_interval_set Ma Mb)
      qed
      ultimately show ?thesis
        using ww nfb nfa by (simp add: implies_interval_def is_wrapped_def)
    qed
  qed
qed

text \<open>
  C6 as stated fails: \<open>implies\<close> is not true for every pair whose sets are included.
  At width 8 the bound of \<open>-128 \<le>\<^sub>s x\<close>, the wrapped interval \<open>[128, 127]\<close>, stands for the
  whole domain without being \<open>is_full\<close>; the full interval \<open>[0, 255]\<close> is included in it
  and \<open>implies\<close> returns \<open>false\<close>.
\<close>

theorem implies_interval_incomplete:
  "is_bound (mk_sle (num8 128) x8) = Some (x8, iv8 128 127)
   \<and> invariant (iv8 0 255) \<and> invariant (iv8 128 127)
   \<and> interval_set (iv8 0 255) \<subseteq> interval_set (iv8 128 127)
   \<and> \<not> implies_interval (iv8 0 255) (iv8 128 127)"
  by (auto simp: interval_set_def implies_interval_def interval_defs)

text \<open>
  C6, amended: for two intervals \<open>a\<close> and \<open>b\<close> of the same width that satisfy the bounds
  invariant, \<open>implies a b\<close> being true entails that every value of the set of \<open>a\<close> is in
  the set of \<open>b\<close>; and when \<open>b\<close> is not a wrapped interval with \<open>b.l = b.h + 1\<close> (one
  that covers the whole domain without being full), \<open>implies a b\<close> is true if and only if
  the set of \<open>a\<close> is included in the set of \<open>b\<close>.
\<close>

theorem implies_interval_subset:
  assumes "invariant a" "invariant b" "sz a = sz b"
  shows "(implies_interval a b \<longrightarrow> interval_set a \<subseteq> interval_set b)
    \<and> (l b \<noteq> h b + 1 \<longrightarrow>
         (implies_interval a b \<longleftrightarrow> interval_set a \<subseteq> interval_set b))"
  using assms implies_interval_sound [of a b] implies_interval_complete [of a b]
  by blast

theorem implies_interval_subset_witness:
  "invariant (iv8 0 5) \<and> invariant (iv8 200 10) \<and> sz (iv8 0 5) = sz (iv8 200 10)
   \<and> l (iv8 200 10) \<noteq> h (iv8 200 10) + 1
   \<and> implies_interval (iv8 0 5) (iv8 200 10)
   \<and> interval_set (iv8 0 5) \<subseteq> interval_set (iv8 200 10)
   \<and> \<not> implies_interval (iv8 0 20) (iv8 200 10)
   \<and> \<not> interval_set (iv8 0 20) \<subseteq> interval_set (iv8 200 10)"
proof -
  have inv: "invariant (iv8 0 5)" "invariant (iv8 200 10)" "invariant (iv8 0 20)"
    by (simp_all add: interval_defs)
  have w: "sz (iv8 0 5) = sz (iv8 200 10)" "sz (iv8 0 20) = sz (iv8 200 10)"
    by simp_all
  have gap: "l (iv8 200 10) \<noteq> h (iv8 200 10) + 1"
    by simp
  have yes: "implies_interval (iv8 0 5) (iv8 200 10)"
    and no: "\<not> implies_interval (iv8 0 20) (iv8 200 10)"
    by (simp_all add: implies_interval_def interval_defs)
  from implies_interval_subset [OF inv(1) inv(2) w(1)] yes
  have 1: "interval_set (iv8 0 5) \<subseteq> interval_set (iv8 200 10)"
    by blast
  from implies_interval_subset [OF inv(3) inv(2) w(2)] gap no
  have 2: "\<not> interval_set (iv8 0 20) \<subseteq> interval_set (iv8 200 10)"
    by blast
  from inv w gap yes no 1 2 show ?thesis by blast
qed

section \<open>The bounds invariant\<close>

lemma uMaxInt_nonneg: "0 \<le> uMaxInt w"
  by (simp add: uMaxInt_def)

lemma pow2_not_less_1: "\<not> (2::int) ^ k < 1"
  by (simp add: not_less)

lemma pow_pred_le:
  fixes w :: "32 word"
  assumes w: "w \<noteq> 0"
  shows "(2::int) ^ unat (w - 1) \<le> uMaxInt w"
proof -
  from w have "unat w \<noteq> 0" by (simp add: unat_eq_0)
  then obtain k where k: "unat w = Suc k" by (cases "unat w") auto
  with w have "unat (w - 1) = k" by (simp add: unat_minus_one)
  moreover have "(1::int) \<le> 2 ^ k" by simp
  ultimately show ?thesis by (simp add: uMaxInt_def k)
qed

lemma sle_bounds:
  fixes w :: "32 word"
  assumes "w \<noteq> 0"
  shows "(2::int) ^ unat (w - 1) - 1 \<le> uMaxInt w" "(2::int) ^ unat (w - 1) \<le> uMaxInt w"
proof -
  show "(2::int) ^ unat (w - 1) \<le> uMaxInt w" by (rule pow_pred_le [OF assms])
  then show "(2::int) ^ unat (w - 1) - 1 \<le> uMaxInt w" by simp
qed

lemma is_bound_invariant:
  assumes "literals_in_range e" "is_bound e = Some (v, b)"
  shows "invariant b"
proof (cases e)
  case (mk_ule lhs rhs)
  with assms show ?thesis
    by (cases lhs; cases rhs) (auto simp: invariant_def mk_interval_def uMaxInt_nonneg)
next
  case (mk_sle lhs rhs)
  with assms show ?thesis
    by (cases lhs; cases rhs)
      (auto simp: invariant_def mk_interval_def sle_bounds pow2_not_less_1)
next
  case (mk_eq lhs rhs)
  with assms show ?thesis
    by (cases lhs; cases rhs) (auto simp: invariant_def mk_interval_def)
qed (use assms in simp_all)

lemma is_bound_sz:
  assumes "well_sorted e" "is_bound e = Some (v, b)"
  shows "sz b = get_bv_size v"
proof (cases e)
  case (mk_ule lhs rhs)
  with assms show ?thesis
    by (cases lhs; cases rhs) (auto simp: mk_interval_def)
next
  case (mk_sle lhs rhs)
  with assms show ?thesis
    by (cases lhs; cases rhs) (auto simp: mk_interval_def)
next
  case (mk_eq lhs rhs)
  with assms show ?thesis
    by (cases lhs; cases rhs) (auto simp: mk_interval_def)
qed (use assms in simp_all)

text \<open>
  C9: every interval the component constructs satisfies \<open>0 \<le> l \<le> MAX(sz)\<close> and
  \<open>0 \<le> h \<le> MAX(sz)\<close>: the bound \<open>is_bound\<close> extracts from a term whose literals are
  in range for their width, the result of \<open>intersect\<close> on two intervals of one width that
  satisfy the invariant, and the result of \<open>negate\<close> on an interval that satisfies it.
\<close>

theorem interval_invariant:
  "(literals_in_range e \<and> is_bound e = Some (v, b) \<longrightarrow> invariant b)
   \<and> (invariant a \<and> invariant c \<and> sz a = sz c \<and> intersect a c = Some r \<longrightarrow> invariant r)
   \<and> (invariant a \<and> negate a = Some r' \<longrightarrow> invariant r')"
  using is_bound_invariant [of e v b] intersect_invariant [of a c r]
    negate_invariant [of a r']
  by blast

theorem interval_invariant_witness:
  "literals_in_range (mk_sle (num8 3) x8)
   \<and> is_bound (mk_sle (num8 3) x8) = Some (x8, iv8 3 127)
   \<and> invariant (iv8 3 127)
   \<and> invariant (iv8 200 10) \<and> sz (iv8 200 10) = sz (iv8 3 127)
   \<and> intersect (iv8 200 10) (iv8 3 127) = Some (iv8 3 10)
   \<and> invariant (iv8 3 10)
   \<and> negate (iv8 200 10) = Some (iv8 11 199)
   \<and> invariant (iv8 11 199)"
proof -
  have lit: "literals_in_range (mk_sle (num8 3) x8)"
    by (simp add: uMaxInt_def)
  have bnd: "is_bound (mk_sle (num8 3) x8) = Some (x8, iv8 3 127)"
    by (simp add: mk_interval_def)
  have inv: "invariant (iv8 200 10)"
    by (simp add: interval_defs)
  have w: "sz (iv8 200 10) = sz (iv8 3 127)"
    by simp
  have int: "intersect (iv8 200 10) (iv8 3 127) = Some (iv8 3 10)"
    by (simp add: intersect.simps interval_defs)
  have neg: "negate (iv8 200 10) = Some (iv8 11 199)"
    by (simp add: negate_def interval_defs)
  from lit bnd
    interval_invariant [of "mk_sle (num8 3) x8" x8 "iv8 3 127" "iv8 200 10" "iv8 3 127"
      "iv8 3 10" "iv8 11 199"]
  have 1: "invariant (iv8 3 127)" by blast
  from inv 1 w int neg
    interval_invariant [of "mk_sle (num8 3) x8" x8 "iv8 3 127" "iv8 200 10" "iv8 3 127"
      "iv8 3 10" "iv8 11 199"]
  have 2: "invariant (iv8 3 10)" "invariant (iv8 11 199)" by blast+
  from lit bnd inv w int neg 1 2 show ?thesis by blast
qed

section \<open>The scope stack\<close>

lemma m_scopes_push: "m_scopes (push s) = m_scopes s @ [m_bound s]"
  by (simp add: push_def)

lemma m_bound_push: "m_bound (push s) = m_bound s"
  by (simp add: push_def m_bound_def)

lemma m_scopes_set_bound_push: "m_scopes (set_bound (push s) T) = m_scopes s @ [T]"
  by (simp add: set_bound_def push_def)

lemma add_bound_scopes:
  "m_scopes (snd (add_bound s t b)) =
     m_scopes s @ [(m_bound s)(t \<mapsto>
        (let r = (case m_bound s t of None \<Rightarrow> b | Some e \<Rightarrow> e)
         in case intersect r b of Some res \<Rightarrow> res | None \<Rightarrow> r))]"
  by (simp add: add_bound_def Let_def m_bound_push m_scopes_set_bound_push
    split: option.splits)

lemma add_bound_fst:
  "fst (add_bound s t b) \<longleftrightarrow>
     intersect (case m_bound s t of None \<Rightarrow> b | Some e \<Rightarrow> e) b \<noteq> None"
  by (simp add: add_bound_def Let_def m_bound_push split: option.splits)

lemma assert_expr_unrecognised:
  "is_bound t = None \<Longrightarrow> assert_expr s t sign = Inr s"
  by (simp add: assert_expr_def)

lemma assert_expr_add_bound:
  assumes "is_bound t = Some (k, i)" "assert_expr s t sign = Inr s'"
  shows "\<exists>b'. (if sign then negate i else Some i) = Some b' \<and> add_bound s k b' = (True, s')"
  using assms
  by (auto simp: assert_expr_def split: option.splits if_splits prod.splits bool.splits)

lemma assert_expr_recognised:
  assumes "is_bound t = Some (k, i)" "assert_expr s t sign = Inr s'"
  shows "\<exists>T. m_scopes s' = m_scopes s @ [T]"
proof -
  from assert_expr_add_bound [OF assms] obtain b' where "add_bound s k b' = (True, s')"
    by blast
  then have "s' = snd (add_bound s k b')" by simp
  then show ?thesis by (simp add: add_bound_scopes)
qed

lemma simplify_state: "snd (simplify s t) = s"
  by (simp add: simplify_def split: option.splits prod.splits)

text \<open>
  C10: \<open>simplify\<close> is a pure query on the fact store: whatever the term and the state,
  and whether or not it produces a result, it leaves the scope stack with every table
  and every recorded bound, and with them the reported \<open>scope_level\<close>, unchanged.
\<close>

theorem simplify_pure:
  "snd (simplify s t) = s
   \<and> m_scopes (snd (simplify s t)) = m_scopes s
   \<and> m_bound (snd (simplify s t)) = m_bound s
   \<and> scope_level (snd (simplify s t)) = scope_level s"
  by (simp add: simplify_state)

lemma step_level:
  assumes "m_scopes s \<noteq> []" "step s c = Inr s'"
  shows "m_scopes s' \<noteq> [] \<and> scope_level s' + leaves c = scope_level s + enters c"
proof (cases c)
  case Push
  with assms show ?thesis by (auto simp: m_scopes_push scope_level_def)
next
  case (Pop n)
  with assms show ?thesis
    by (auto simp: pop_def scope_level_def split: if_splits)
next
  case (Assert_expr t sign)
  show ?thesis
  proof (cases "is_bound t")
    case None
    with assms Assert_expr show ?thesis by (simp add: assert_expr_unrecognised)
  next
    case (Some p)
    then obtain k i where "is_bound t = Some (k, i)" by (cases p) simp
    with assms Assert_expr assert_expr_recognised [of t k i s sign s'] show ?thesis
      by (auto simp: scope_level_def)
  qed
next
  case (Simplify t)
  with assms show ?thesis by (auto simp: simplify_state)
qed

lemma run_level:
  "m_scopes s \<noteq> [] \<Longrightarrow> run s cs = Inr s' \<Longrightarrow>
     m_scopes s' \<noteq> []
     \<and> scope_level s' + sum_list (map leaves cs) = scope_level s + sum_list (map enters cs)"
proof (induction cs arbitrary: s)
  case Nil
  then show ?case by simp
next
  case (Cons c cs)
  from Cons.prems obtain s1 where s1: "step s c = Inr s1" "run s1 cs = Inr s'"
    by (auto split: sum.splits)
  from step_level [OF Cons.prems(1) s1(1)]
  have 1: "m_scopes s1 \<noteq> []" "scope_level s1 + leaves c = scope_level s + enters c"
    by simp_all
  from Cons.IH [OF 1(1) s1(2)] 1(2) show ?case by simp
qed

text \<open>
  C5 as stated fails: recording a hypothesis bound changes the reported depth, because
  \<open>add_bound\<close> begins with \<open>push\<close>. After the single call \<open>assert_expr (x \<le> 5)\<close> on a
  fresh simplifier no \<open>push\<close> was issued, and \<open>scope_level\<close> is 1.
\<close>

theorem scope_level_after_assert:
  "unmatched_pushes [Assert_expr (mk_ule x8 (num8 5)) False] = 0
   \<and> level_after [Assert_expr (mk_ule x8 (num8 5)) False] = Inr 1"
  by (simp add: level_after_def scope_level_def simplifier_defs intersect.simps
    interval_defs)

text \<open>
  C5, amended: after every sequence of operations that runs without error from
  construction, \<open>scope_level\<close> equals the number of scopes entered, one for each \<open>push\<close>
  and one for each \<open>assert_expr\<close> on a term recognised as a bound (which enters a scope
  of its own through \<open>add_bound\<close>), minus the number of scopes removed by \<open>pop\<close>;
  \<open>simplify\<close> and \<open>assert_expr\<close> on an unrecognised term leave it unchanged.
\<close>

theorem scope_level_counts:
  assumes "run init cs = Inr s"
  shows "scope_level s + sum_list (map leaves cs) = sum_list (map enters cs)"
proof -
  have "m_scopes init \<noteq> []" "scope_level init = 0"
    by (simp_all add: init_def scope_level_def)
  with run_level [OF _ assms] show ?thesis by simp
qed

theorem scope_level_counts_witness:
  "run init [Push, Assert_expr (mk_ule x8 (num8 5)) False,
       Assert_expr (mk_bool_const ''p'') False, Simplify (mk_ule x8 (num8 9)), Pop 1]
     = Inr \<lparr>m_scopes = [Map.empty, Map.empty]\<rparr>
   \<and> scope_level \<lparr>m_scopes = [Map.empty, Map.empty]\<rparr> = 1
   \<and> sum_list (map leaves [Push, Assert_expr (mk_ule x8 (num8 5)) False,
       Assert_expr (mk_bool_const ''p'') False, Simplify (mk_ule x8 (num8 9)), Pop 1]) = 1
   \<and> sum_list (map enters [Push, Assert_expr (mk_ule x8 (num8 5)) False,
       Assert_expr (mk_bool_const ''p'') False, Simplify (mk_ule x8 (num8 9)), Pop 1]) = 2"
proof -
  have r: "run init [Push, Assert_expr (mk_ule x8 (num8 5)) False,
       Assert_expr (mk_bool_const ''p'') False, Simplify (mk_ule x8 (num8 9)), Pop 1]
     = Inr \<lparr>m_scopes = [Map.empty, Map.empty]\<rparr>"
    by (simp add: simplify_state pop_def assert_expr_def add_bound_def push_def init_def
      m_bound_def set_bound_def Let_def intersect.simps interval_defs)
  have c: "sum_list (map leaves [Push, Assert_expr (mk_ule x8 (num8 5)) False,
       Assert_expr (mk_bool_const ''p'') False, Simplify (mk_ule x8 (num8 9)), Pop 1]) = 1"
    "sum_list (map enters [Push, Assert_expr (mk_ule x8 (num8 5)) False,
       Assert_expr (mk_bool_const ''p'') False, Simplify (mk_ule x8 (num8 9)), Pop 1]) = 2"
    by simp_all
  from scope_level_counts [OF r] c
  have "scope_level \<lparr>m_scopes = [Map.empty, Map.empty]\<rparr> = 1"
    by simp
  with r c show ?thesis by blast
qed

text \<open>
  C8: after \<open>push\<close> and the recording of a bound for a key \<open>k\<close> by \<open>assert_expr\<close>,
  \<open>pop 1\<close> succeeds and leaves the state that \<open>push\<close> had produced: its current table is
  the table that was current before \<open>push\<close>, so a lookup of \<open>k\<close> (or of any key) returns
  what it returned then, and the tables beneath it are the scope stack from before
  \<open>push\<close>, unchanged.
\<close>

theorem scope_discipline:
  assumes "is_bound t = Some (k, i)" "assert_expr (push s) t sign = Inr s1"
  shows "pop s1 1 = Inr (push s)
    \<and> m_bound (push s) k = m_bound s k
    \<and> m_bound (push s) = m_bound s
    \<and> butlast (m_scopes (push s)) = m_scopes s"
proof -
  from assert_expr_recognised [OF assms] obtain T
    where T: "m_scopes s1 = m_scopes (push s) @ [T]" by blast
  then have "pop s1 1 = Inr (s1\<lparr>m_scopes := m_scopes (push s)\<rparr>)"
    by (simp add: pop_def m_scopes_push)
  moreover have "s1\<lparr>m_scopes := m_scopes (push s)\<rparr> = push s"
    by (simp add: push_def)
  ultimately show ?thesis by (simp add: m_bound_push m_scopes_push)
qed

theorem scope_discipline_witness:
  "is_bound (mk_ule x8 (num8 5)) = Some (x8, iv8 0 5)
   \<and> m_bound \<lparr>m_scopes = [[x8 \<mapsto> iv8 0 9]]\<rparr> x8 = Some (iv8 0 9)
   \<and> assert_expr (push \<lparr>m_scopes = [[x8 \<mapsto> iv8 0 9]]\<rparr>) (mk_ule x8 (num8 5)) False
       = Inr \<lparr>m_scopes = [[x8 \<mapsto> iv8 0 9], [x8 \<mapsto> iv8 0 9], [x8 \<mapsto> iv8 0 5]]\<rparr>
   \<and> pop \<lparr>m_scopes = [[x8 \<mapsto> iv8 0 9], [x8 \<mapsto> iv8 0 9], [x8 \<mapsto> iv8 0 5]]\<rparr> 1
       = Inr \<lparr>m_scopes = [[x8 \<mapsto> iv8 0 9], [x8 \<mapsto> iv8 0 9]]\<rparr>
   \<and> m_bound \<lparr>m_scopes = [[x8 \<mapsto> iv8 0 9], [x8 \<mapsto> iv8 0 9]]\<rparr> x8 = Some (iv8 0 9)"
proof -
  have b: "is_bound (mk_ule x8 (num8 5)) = Some (x8, iv8 0 5)"
    by (simp add: mk_interval_def)
  have a: "assert_expr (push \<lparr>m_scopes = [[x8 \<mapsto> iv8 0 9]]\<rparr>) (mk_ule x8 (num8 5)) False
       = Inr \<lparr>m_scopes = [[x8 \<mapsto> iv8 0 9], [x8 \<mapsto> iv8 0 9], [x8 \<mapsto> iv8 0 5]]\<rparr>"
    by (simp add: simplifier_defs intersect.simps interval_defs)
  have p: "push \<lparr>m_scopes = [[x8 \<mapsto> iv8 0 9]]\<rparr>
       = \<lparr>m_scopes = [[x8 \<mapsto> iv8 0 9], [x8 \<mapsto> iv8 0 9]]\<rparr>"
    by (simp add: push_def m_bound_def)
  from scope_discipline [OF b a]
  have "pop \<lparr>m_scopes = [[x8 \<mapsto> iv8 0 9], [x8 \<mapsto> iv8 0 9], [x8 \<mapsto> iv8 0 5]]\<rparr> 1
       = Inr \<lparr>m_scopes = [[x8 \<mapsto> iv8 0 9], [x8 \<mapsto> iv8 0 9]]\<rparr>"
    and "m_bound \<lparr>m_scopes = [[x8 \<mapsto> iv8 0 9], [x8 \<mapsto> iv8 0 9]]\<rparr> x8
       = m_bound \<lparr>m_scopes = [[x8 \<mapsto> iv8 0 9]]\<rparr> x8"
    by (simp_all add: p)
  moreover have "m_bound \<lparr>m_scopes = [[x8 \<mapsto> iv8 0 9]]\<rparr> x8 = Some (iv8 0 9)"
    by (simp add: m_bound_def)
  ultimately show ?thesis using b a by simp
qed

section \<open>The invariant of the store\<close>

text \<open>
  On well-sorted terms with literals in range, the intervals that \<open>add_bound\<close> intersects
  always have one width, and every interval that a run records satisfies the bounds
  invariant.
\<close>

lemma m_bound_table_ok: "store_ok s \<Longrightarrow> table_ok (m_bound s)"
  by (simp add: store_ok_def m_bound_def)

lemma add_bound_store_ok:
  assumes s: "store_ok s" and b: "invariant b" "sz b = get_bv_size t"
    and ok: "add_bound s t b = (True, s')"
  shows "store_ok s'"
proof -
  define r where "r = (case m_bound s t of None \<Rightarrow> b | Some e \<Rightarrow> e)"
  from m_bound_table_ok [OF s] b have r: "invariant r" "sz r = sz b"
    by (auto simp: r_def table_ok_def split: option.splits)
  from ok have "fst (add_bound s t b)" by simp
  then obtain res where res: "intersect r b = Some res"
    by (auto simp: add_bound_fst r_def)
  from intersect_invariant [OF r(1) b(1) r(2) res] r b
  have res_ok: "invariant res" "sz res = get_bv_size t" by simp_all
  from ok have "s' = snd (add_bound s t b)" by simp
  then have scopes: "m_scopes s' = m_scopes s @ [(m_bound s)(t \<mapsto> res)]"
    using res by (simp add: add_bound_scopes r_def)
  have "table_ok ((m_bound s)(t \<mapsto> res))"
    using m_bound_table_ok [OF s] res_ok by (simp add: table_ok_def)
  with s scopes show ?thesis by (auto simp: store_ok_def)
qed

lemma assert_expr_store_ok:
  assumes s: "store_ok s" and t: "literals_in_range t" "well_sorted t"
    and ok: "assert_expr s t sign = Inr s'"
  shows "store_ok s'"
proof (cases "is_bound t")
  case None
  with ok s show ?thesis by (simp add: assert_expr_unrecognised)
next
  case (Some p)
  then obtain k b where kb: "is_bound t = Some (k, b)" by (cases p) simp
  from is_bound_invariant [OF t(1) kb] is_bound_sz [OF t(2) kb]
  have b: "invariant b" "sz b = get_bv_size k" by simp_all
  from assert_expr_add_bound [OF kb ok] obtain b'
    where b': "(if sign then negate b else Some b) = Some b'" "add_bound s k b' = (True, s')"
    by blast
  from b'(1) b negate_invariant [of b b'] have "invariant b'" "sz b' = get_bv_size k"
    by (auto split: if_splits)
  from add_bound_store_ok [OF s this b'(2)] show ?thesis .
qed

lemma step_store_ok:
  assumes "store_ok s" "op_ok c" "step s c = Inr s'"
  shows "store_ok s'"
proof (cases c)
  case Push
  with assms m_bound_table_ok [of s] show ?thesis
    by (auto simp: store_ok_def m_scopes_push)
next
  case (Pop n)
  with assms show ?thesis
    by (auto simp: store_ok_def pop_def split: if_splits dest!: in_set_takeD)
next
  case (Assert_expr t sign)
  with assms show ?thesis by (auto intro: assert_expr_store_ok)
next
  case (Simplify t)
  with assms show ?thesis by (simp add: simplify_state)
qed

lemma store_ok_init: "store_ok init"
  by (simp add: store_ok_def init_def table_ok_def)

lemma store_invariant:
  "store_ok s \<Longrightarrow> \<forall>c \<in> set cs. op_ok c \<Longrightarrow> run s cs = Inr s' \<Longrightarrow> store_ok s'"
proof (induction cs arbitrary: s)
  case Nil
  then show ?case by simp
next
  case (Cons c cs)
  from Cons.prems obtain s1 where s1: "step s c = Inr s1" "run s1 cs = Inr s'"
    by (auto split: sum.splits)
  from Cons.prems step_store_ok [OF _ _ s1(1)] have "store_ok s1" by simp
  with Cons.IH [OF _ _ s1(2)] Cons.prems show ?case by simp
qed

section \<open>End-to-end scenarios\<close>

text \<open>
  C1 as stated fails (scenario C, width 8). With the bound \<open>[5,5]\<close> of the hypothesis
  \<open>x = 5\<close> recorded, \<open>simplify (x \<le> 5)\<close> does not produce the boolean-true term and
  \<open>simplify (x \<le> 4)\<close> does not produce the boolean-false term.
\<close>

theorem scenario_C_as_stated_fails:
  "\<not> (try_after [(mk_eq x8 (num8 5), False)] (mk_ule x8 (num8 5)) = Inr (Some mk_true)
      \<and> try_after [(mk_eq x8 (num8 5), False)] (mk_ule x8 (num8 4)) = Inr (Some mk_false))"
  by (simp add: simplifier_defs intersect.simps interval_defs)

text \<open>
  C1, amended (scenario C, width 8): after \<open>assert_expr\<close> records the bound \<open>[5,5]\<close> of
  the hypothesis \<open>x = 5\<close> with positive polarity, \<open>simplify (x \<le> 5)\<close> produces the
  equality term \<open>x = 5\<close>: the intersection of \<open>[0,5]\<close> with \<open>[5,5]\<close> is a single point,
  the case that \<open>simplify\<close> tests before implication.
\<close>

theorem scenario_C_pinned:
  "bound_after [(mk_eq x8 (num8 5), False)] x8 = Inr (Some (iv8 5 5))
   \<and> try_after [(mk_eq x8 (num8 5), False)] (mk_ule x8 (num8 5))
       = Inr (Some (mk_eq x8 (num8 5)))"
  by (simp add: simplifier_defs intersect.simps interval_defs)

text \<open>
  C3 as stated fails (scenario D, width 8). With \<open>x \<le> 5\<close> recorded and then the negated
  \<open>x \<le> 2\<close>, \<open>simplify (x = 4)\<close> does produce a result and \<open>simplify (x \<le> 2)\<close> does not
  produce the boolean-false term.
\<close>

theorem scenario_D_as_stated_fails:
  "\<not> (try_after [(mk_ule x8 (num8 5), False), (mk_ule x8 (num8 2), True)]
          (mk_eq x8 (num8 4)) = Inr None
      \<and> try_after [(mk_ule x8 (num8 5), False), (mk_ule x8 (num8 2), True)]
          (mk_ule x8 (num8 2)) = Inr (Some mk_false))"
  by (simp add: simplifier_defs negate_def intersect.simps interval_defs)

text \<open>
  C3, amended (scenario D, width 8): after \<open>assert_expr\<close> records the hypothesis
  \<open>x \<le> 5\<close> with positive polarity and then the hypothesis \<open>x \<le> 2\<close> with negated
  polarity, the stored bound of \<open>x\<close> is \<open>[3,5]\<close>, and \<open>simplify (x = 4)\<close> produces the
  equality term \<open>x = 4\<close>: the intersection of \<open>[4,4]\<close> with \<open>[3,5]\<close> is a single point.
\<close>

theorem scenario_D_pinned:
  "bound_after [(mk_ule x8 (num8 5), False), (mk_ule x8 (num8 2), True)] x8
       = Inr (Some (iv8 3 5))
   \<and> try_after [(mk_ule x8 (num8 5), False), (mk_ule x8 (num8 2), True)]
         (mk_eq x8 (num8 4)) = Inr (Some (mk_eq x8 (num8 4)))"
  by (simp add: simplifier_defs negate_def intersect.simps interval_defs)

text \<open>
  C4: a recognised bound with no value in common with the bound recorded for the same
  term should make \<open>assert_expr\<close> fail and store nothing. The source does not when both
  bounds are contiguous: with \<open>x \<le> 3\<close> recorded, the hypothesis \<open>5 \<le> x\<close> (the bound
  \<open>[5,255]\<close>, disjoint from \<open>[0,3]\<close>) is accepted and the crossed interval \<open>[5,3]\<close> is
  stored for \<open>x\<close>.
\<close>

theorem contradiction_recorded:
  "is_bound (mk_ule x8 (num8 3)) = Some (x8, iv8 0 3)
   \<and> is_bound (mk_ule (num8 5) x8) = Some (x8, iv8 5 255)
   \<and> interval_set (iv8 0 3) \<inter> interval_set (iv8 5 255) = {}
   \<and> bound_after [(mk_ule x8 (num8 3), False), (mk_ule (num8 5) x8, False)] x8
       = Inr (Some (iv8 5 3))"
  by (simp add: simplifier_defs intersect.simps interval_defs interval_set_def)

end
